theory Spec2Isabelle
  imports Main
begin

section \<open>Python values used by the transaction processor\<close>

text \<open>
  Text is a list of characters; a \<^typ>\<open>char\<close> stands for a code point below 256.
  Exceptions are values of \<open>error\<close>; a function that can raise returns
  \<open>error + 'a\<close> with \<open>Inl\<close> for the exception.  \<open>NameError\<close> covers
  Python's \<open>UnboundLocalError\<close> (its subclass for locals read before assignment),
  and \<open>IndexError\<close> carries the interpreter's message, which tells indexing a
  string from indexing a list.
\<close>

datatype error =
    NameError
  | IndexError string
  | KeyError string
  | TypeError
  | AttributeError
  | RegexError
  | DatabaseError

definition LF :: char where
  "LF = CHR 0x0A"

definition CR :: char where
  "CR = CHR 0x0D"

text \<open>\<open>str.isspace\<close> on the code points below 256.\<close>

definition isspace :: "char \<Rightarrow> bool" where
  "isspace c \<longleftrightarrow> (of_char c :: nat) \<in> {9, 10, 11, 12, 13, 28, 29, 30, 31, 32, 133, 160}"

text \<open>\<open>s.strip()\<close>: whitespace removed at both ends.\<close>

definition strip :: "string \<Rightarrow> string" where
  "strip s = rev (dropWhile isspace (rev (dropWhile isspace s)))"

text \<open>\<open>s.lower()\<close> on the code points below 256: A-Z and the Latin-1 capitals.\<close>

definition lower_char :: "char \<Rightarrow> char" where
  "lower_char c =
     (let n = (of_char c :: nat)
      in if (65 \<le> n \<and> n \<le> 90) \<or> (192 \<le> n \<and> n \<le> 222 \<and> n \<noteq> 215)
         then char_of (n + 32) else c)"

definition lower :: "string \<Rightarrow> string" where
  "lower s = map lower_char s"

text \<open>\<open>s.startswith(p)\<close>.\<close>

fun startswith :: "string \<Rightarrow> string \<Rightarrow> bool" where
  "startswith s [] = True"
| "startswith [] (p # ps) = False"
| "startswith (c # cs) (p # ps) = (c = p \<and> startswith cs ps)"

text \<open>\<open>sub in s\<close> for strings: \<open>sub\<close> occurs at some position of \<open>s\<close>.\<close>

fun contains :: "string \<Rightarrow> string \<Rightarrow> bool" where
  "contains [] sub = (sub = [])"
| "contains (c # cs) sub = (startswith (c # cs) sub \<or> contains cs sub)"

text \<open>\<open>s.split(sep)\<close> for a one-character separator.\<close>

fun str_split :: "char \<Rightarrow> string \<Rightarrow> string list" where
  "str_split sep [] = [[]]"
| "str_split sep (c # cs) =
     (if c = sep then [] # str_split sep cs
      else (case str_split sep cs of
              [] \<Rightarrow> [[c]]
            | w # ws \<Rightarrow> (c # w) # ws))"

text \<open>\<open>xs[i]\<close> on a list; a negative index counts from the end.\<close>

definition list_index :: "'a list \<Rightarrow> int \<Rightarrow> error + 'a" where
  "list_index xs i =
     (if 0 \<le> i \<and> i < int (length xs) then Inr (xs ! nat i)
      else if i < 0 \<and> - int (length xs) \<le> i then Inr (xs ! nat (int (length xs) + i))
      else Inl (IndexError ''list index out of range''))"

text \<open>
  A \<open>dict\<close> or \<open>OrderedDict\<close> keeps its keys in insertion order: an association
  list with one pair per key.  \<open>d[k] = v\<close> overwrites in place or appends.
\<close>

fun dict_set :: "('k \<times> 'v) list \<Rightarrow> 'k \<Rightarrow> 'v \<Rightarrow> ('k \<times> 'v) list" where
  "dict_set [] k v = [(k, v)]"
| "dict_set ((k', v') # d) k v =
     (if k' = k then (k', v) # d else (k', v') # dict_set d k v)"

definition dict_get :: "('k \<times> 'v) list \<Rightarrow> 'k \<Rightarrow> 'v option" where
  "dict_get d k = map_of d k"

text \<open>\<open>OrderedDict(pairs)\<close>: the pairs are stored one after the other.\<close>

definition OrderedDict :: "('k \<times> 'v) list \<Rightarrow> ('k \<times> 'v) list" where
  "OrderedDict pairs = foldl (\<lambda>d (k, v). dict_set d k v) [] pairs"

section \<open>qif_parser.py\<close>

definition AcctHeader :: string where "AcctHeader = ''!Account''"
definition AcctName :: string where "AcctName = ''N''"
definition AcctType :: string where "AcctType = ''T''"
definition TxnHeader :: string where "TxnHeader = ''!Type''"
definition RecordBegin :: string where "RecordBegin = ''C''"
definition TxnDate :: string where "TxnDate = ''D''"
definition TxnCheckNumber :: string where "TxnCheckNumber = ''N''"
definition TxnPayee :: string where "TxnPayee = ''P''"
definition TxnAmount :: string where "TxnAmount = ''T''"
definition TxnCategory :: string where "TxnCategory = ''L''"
definition RecordEnd :: string where "RecordEnd = ''^''"

type_synonym record_dict = "(string \<times> string) list"

record QIFParser =
  account_info :: record_dict
  transactions :: "record_dict list"
  transaction_type :: "string option"

text \<open>\<open>QIFParser.__init__\<close>.\<close>

definition QIFParser_init :: QIFParser where
  "QIFParser_init = \<lparr>account_info = [], transactions = [], transaction_type = None\<rparr>"

subsection \<open>Reading a text file line by line\<close>

text \<open>
  \<open>open(qif_file, 'r')\<close> reads with universal newlines: \<open>\r\n\<close> and a lone
  \<open>\r\<close> arrive as \<open>\n\<close>.  Iterating the file yields the lines with their
  terminator; a last line without terminator is yielded as it is.
\<close>

fun universal_newlines :: "string \<Rightarrow> string" where
  "universal_newlines [] = []"
| "universal_newlines [c] = [if c = CR then LF else c]"
| "universal_newlines (c # d # cs) =
     (if c = CR then (if d = LF then LF # universal_newlines cs
                      else LF # universal_newlines (d # cs))
      else c # universal_newlines (d # cs))"

fun lines_keepends :: "string \<Rightarrow> string list" where
  "lines_keepends [] = []"
| "lines_keepends (c # cs) =
     (if c = LF then [LF] # lines_keepends cs
      else (case lines_keepends cs of
              [] \<Rightarrow> [[c]]
            | l # ls \<Rightarrow> (c # l) # ls))"

definition file_lines :: "string \<Rightarrow> string list" where
  "file_lines content = lines_keepends (universal_newlines content)"

subsection \<open>\<open>init_from_qif\<close>\<close>

text \<open>
  The loop's state: the parser object and the two locals.  \<open>in_account_section\<close> is
  \<open>None\<close> until the first assignment; reading it then raises.
\<close>

record parse_state =
  self :: QIFParser
  current_transaction :: record_dict
  in_account_section :: "bool option"

definition parse_line :: "parse_state \<Rightarrow> string \<Rightarrow> error + parse_state" where
  "parse_line st raw =
     (let line = strip raw in
      if line = [] then Inr st
      else if line = AcctHeader then
        Inr (st\<lparr>in_account_section := Some True,
                self := (self st)\<lparr>account_info := dict_set [] line ''''\<rparr>\<rparr>)
      else if startswith line TxnHeader then
        (case list_index (str_split (CHR '':'') line) 1 of
           Inl e \<Rightarrow> Inl e
         | Inr t \<Rightarrow> Inr (st\<lparr>self := (self st)\<lparr>transaction_type := Some t\<rparr>\<rparr>))
      else if line = RecordEnd then
        (case in_account_section st of
           None \<Rightarrow> Inl NameError
         | Some True \<Rightarrow>
             Inr (st\<lparr>self := (self st)\<lparr>account_info :=
                         dict_set (account_info (self st)) RecordEnd ''''\<rparr>,
                     in_account_section := Some False\<rparr>)
         | Some False \<Rightarrow>
             Inr (st\<lparr>self := (self st)\<lparr>transactions :=
                         transactions (self st)
                           @ [dict_set (current_transaction st) RecordEnd '''']\<rparr>,
                     current_transaction := []\<rparr>))
      else
        (case line of
           [] \<Rightarrow> Inl (IndexError ''string index out of range'')
         | c # rest \<Rightarrow>
             (let line_type = [c];
                  line_data = strip rest
              in case in_account_section st of
                   None \<Rightarrow> Inl NameError
                 | Some True \<Rightarrow>
                     Inr (st\<lparr>self := (self st)\<lparr>account_info :=
                                 dict_set (account_info (self st)) line_type line_data\<rparr>\<rparr>)
                 | Some False \<Rightarrow>
                     Inr (st\<lparr>current_transaction :=
                                 dict_set (current_transaction st) line_type line_data\<rparr>))))"

fun parse_lines :: "parse_state \<Rightarrow> string list \<Rightarrow> error + parse_state" where
  "parse_lines st [] = Inr st"
| "parse_lines st (raw # raws) =
     (case parse_line st raw of
        Inl e \<Rightarrow> Inl e
      | Inr st' \<Rightarrow> parse_lines st' raws)"

text \<open>The argument \<open>qif_file\<close> is the content of the file of that name.\<close>

definition init_from_qif :: "QIFParser \<Rightarrow> string \<Rightarrow> error + QIFParser" where
  "init_from_qif slf qif_file =
     (case parse_lines \<lparr>self = slf, current_transaction = [], in_account_section = None\<rparr>
             (file_lines qif_file) of
        Inl e \<Rightarrow> Inl e
      | Inr st \<Rightarrow> Inr (self st))"

subsection \<open>\<open>sort_transaction\<close> and \<open>write\<close>\<close>

definition field_order :: "string list" where
  "field_order =
     [RecordBegin, TxnDate, TxnCheckNumber, TxnPayee, TxnAmount, TxnCategory, RecordEnd]"

definition sort_transaction :: "record_dict \<Rightarrow> record_dict" where
  "sort_transaction txn =
     OrderedDict (List.map_filter
       (\<lambda>field. case dict_get txn field of None \<Rightarrow> None | Some v \<Rightarrow> Some (field, v))
       field_order)"

text \<open>What an f-string prints for a value that is a string or \<open>None\<close>.\<close>

definition format_value :: "string option \<Rightarrow> string" where
  "format_value x = (case x of None \<Rightarrow> ''None'' | Some s \<Rightarrow> s)"

text \<open>One \<open>output.write(f'{key}{value}\n')\<close>.\<close>

definition write_line :: "string \<times> string \<Rightarrow> string" where
  "write_line kv = fst kv @ snd kv @ [LF]"

text \<open>\<open>write\<close> returns the content of the output file.\<close>

definition "write" :: "QIFParser \<Rightarrow> string" where
  "write slf =
     concat (map write_line (account_info slf))
     @ (''!Type:'' @ format_value (transaction_type slf) @ [LF])
     @ concat (map (\<lambda>transaction. concat (map write_line (sort_transaction transaction)))
                 (transactions slf))"

subsection \<open>\<open>init_from_csv\<close>\<close>

text \<open>
  The account configuration is the JSON object of one account: a missing key raises
  \<open>KeyError\<close>.  A row of \<open>csv_input\<close> is a list of cells.
\<close>

record acct_cfg =
  full_account_name :: "string option"
  account_type :: "string option"
  colspec :: "(string \<times> int) list option"

definition cfg_key :: "string \<Rightarrow> 'a option \<Rightarrow> error + 'a" where
  "cfg_key name x = (case x of None \<Rightarrow> Inl (KeyError name) | Some v \<Rightarrow> Inr v)"

text \<open>\<open>t[acct_cfg['colspec'][column]]\<close>.\<close>

definition csv_cell :: "acct_cfg \<Rightarrow> string \<Rightarrow> string list \<Rightarrow> error + string" where
  "csv_cell cfg column t =
     (case cfg_key ''colspec'' (colspec cfg) of
        Inl e \<Rightarrow> Inl e
      | Inr cols \<Rightarrow>
          (case cfg_key column (dict_get cols column) of
             Inl e \<Rightarrow> Inl e
           | Inr i \<Rightarrow> list_index t i))"

text \<open>The body of the loop over \<open>csv_input\<close>: the transaction built from one row.\<close>

definition csv_txn :: "acct_cfg \<Rightarrow> string list \<Rightarrow> error + record_dict" where
  "csv_txn cfg t =
     (let txn = dict_set [] RecordBegin '''' in
      case csv_cell cfg ''date'' t of
        Inl e \<Rightarrow> Inl e
      | Inr d \<Rightarrow>
     (let txn = dict_set txn TxnDate d;
          txn = dict_set txn TxnCheckNumber ''N/A'' in
      case csv_cell cfg ''name'' t of
        Inl e \<Rightarrow> Inl e
      | Inr p \<Rightarrow>
     (let txn = dict_set txn TxnPayee p in
      case csv_cell cfg ''amount'' t of
        Inl e \<Rightarrow> Inl e
      | Inr a \<Rightarrow>
     (let txn = dict_set txn TxnAmount a;
          txn = dict_set txn TxnCategory '''';
          txn = dict_set txn RecordEnd ''''
      in Inr txn))))"

fun csv_rows :: "acct_cfg \<Rightarrow> QIFParser \<Rightarrow> string list list \<Rightarrow> error + QIFParser" where
  "csv_rows cfg slf [] = Inr slf"
| "csv_rows cfg slf (t # ts) =
     (case csv_txn cfg t of
        Inl e \<Rightarrow> Inl e
      | Inr txn \<Rightarrow> csv_rows cfg (slf\<lparr>transactions := transactions slf @ [txn]\<rparr>) ts)"

definition init_from_csv ::
  "QIFParser \<Rightarrow> string list list \<Rightarrow> acct_cfg \<Rightarrow> error + QIFParser" where
  "init_from_csv slf csv_input cfg =
     (let slf = slf\<lparr>account_info := dict_set (account_info slf) AcctHeader ''''\<rparr> in
      case cfg_key ''full-account-name'' (full_account_name cfg) of
        Inl e \<Rightarrow> Inl e
      | Inr name \<Rightarrow>
     (let slf = slf\<lparr>account_info := dict_set (account_info slf) AcctName name\<rparr> in
      case cfg_key ''account-type'' (account_type cfg) of
        Inl e \<Rightarrow> Inl e
      | Inr ty \<Rightarrow>
     (let slf = slf\<lparr>account_info := dict_set (account_info slf) AcctType ty\<rparr>;
          slf = slf\<lparr>account_info := dict_set (account_info slf) RecordEnd ''''\<rparr>;
          slf = slf\<lparr>transaction_type := Some ty\<rparr>
      in csv_rows cfg slf csv_input)))"

section \<open>category_manager.py\<close>

definition UNCATEGORIZED_ACCOUNT :: string where
  "UNCATEGORIZED_ACCOUNT = ''Unspecified''"

text \<open>One rule of the lookup file: \<open>{'payee': pattern, 'type': kind}\<close>.\<close>

record entry =
  payee :: string
  type :: string

type_synonym lookup = "(string \<times> entry list) list"

text \<open>
  \<open>lookup_file\<close> stands for the lookup last written to the file of that name
  (\<open>None\<close>: nothing written by this object yet).
\<close>

record CategoryManager =
  lookup_file :: "lookup option"
  lookup_data :: lookup
  categories_list :: "string list"

definition save_lookup_data :: "CategoryManager \<Rightarrow> CategoryManager" where
  "save_lookup_data cm = cm\<lparr>lookup_file := Some (lookup_data cm)\<rparr>"

definition update_lookup ::
  "CategoryManager \<Rightarrow> string \<Rightarrow> string \<Rightarrow> string \<Rightarrow> CategoryManager" where
  "update_lookup cm category pattern match_type =
     (let cm = (if category \<notin> fst ` set (lookup_data cm)
                then cm\<lparr>lookup_data := dict_set (lookup_data cm) category []\<rparr>
                else cm);
          entries = (case dict_get (lookup_data cm) category of
                       None \<Rightarrow> [] | Some es \<Rightarrow> es);
          exists = list_ex (\<lambda>entry. payee entry = pattern) entries
      in if \<not> exists
         then save_lookup_data
                (cm\<lparr>lookup_data := dict_set (lookup_data cm) category
                        (entries @ [\<lparr>payee = pattern, type = match_type\<rparr>])\<rparr>)
         else cm)"

section \<open>process_transactions.py\<close>

text \<open>
  \<open>re.search\<close> belongs to the Python library: it is the parameter \<open>search\<close>,
  applied to the pattern and the text, telling whether a match was found, or
  raising when the pattern does not compile.
\<close>

type_synonym re_search = "string \<Rightarrow> string \<Rightarrow> error + bool"

definition match_pattern :: "re_search \<Rightarrow> entry \<Rightarrow> string \<Rightarrow> error + bool" where
  "match_pattern search pattern payee_str =
     (if type pattern = ''regex'' then search (payee pattern) payee_str
      else if type pattern = ''literal''
        then Inr (contains (lower payee_str) (lower (payee pattern)))
      else Inr False)"

text \<open>\<open>any(match_pattern(entry, payee) for entry in patterns)\<close> stops at the first hit.\<close>

fun any_match :: "re_search \<Rightarrow> string \<Rightarrow> entry list \<Rightarrow> error + bool" where
  "any_match search payee_str [] = Inr False"
| "any_match search payee_str (e # es) =
     (case match_pattern search e payee_str of
        Inl err \<Rightarrow> Inl err
      | Inr True \<Rightarrow> Inr True
      | Inr False \<Rightarrow> any_match search payee_str es)"

fun scan_lookup :: "re_search \<Rightarrow> string \<Rightarrow> lookup \<Rightarrow> error + string option" where
  "scan_lookup search payee_str [] = Inr None"
| "scan_lookup search payee_str ((category, patterns) # rest) =
     (case any_match search payee_str patterns of
        Inl err \<Rightarrow> Inl err
      | Inr True \<Rightarrow> Inr (Some category)
      | Inr False \<Rightarrow> scan_lookup search payee_str rest)"

definition categorize_transaction ::
  "re_search \<Rightarrow> string \<Rightarrow> lookup \<Rightarrow> error + string option" where
  "categorize_transaction search payee_str lkp =
     (if strip payee_str = [] then Inr None
      else scan_lookup search payee_str lkp)"

text \<open>
  \<open>collect_category\<close> asks until an answer is accepted.  The operator's answers are
  the list \<open>responses\<close>; \<open>None\<close> says that the loop is still asking when they
  are used up.
\<close>

fun collect_category :: "CategoryManager \<Rightarrow> string list \<Rightarrow> string option" where
  "collect_category category_manager [] = None"
| "collect_category category_manager (response # responses) =
     (let category = (if strip response = [] then UNCATEGORIZED_ACCOUNT
                      else strip response)
      in if category \<in> set (categories_list category_manager) then Some category
         else collect_category category_manager responses)"

section \<open>export_accounts.py\<close>

datatype pyval = PNone | PStr string | PInt int

record account_row =
  child_code :: pyval
  fullname :: pyval
  name :: pyval
  parent_name :: pyval
  parent_code :: pyval
  row_account_type :: pyval
  description :: pyval
  hidden :: pyval
  placeholder :: pyval

text \<open>\<open>xs.append(*args)\<close>: \<open>list.append\<close> takes exactly one argument.\<close>

definition list_append :: "'a list \<Rightarrow> 'a list \<Rightarrow> error + 'a list" where
  "list_append xs args =
     (case args of [a] \<Rightarrow> Inr (xs @ [a]) | _ \<Rightarrow> Inl TypeError)"

text \<open>\<open>v.removeprefix(p)\<close>; only a string has the method.\<close>

definition removeprefix :: "pyval \<Rightarrow> string \<Rightarrow> error + pyval" where
  "removeprefix v p =
     (case v of
        PStr s \<Rightarrow> Inr (PStr (if startswith s p then drop (length p) s else s))
      | _ \<Rightarrow> Inl AttributeError)"

fun append_rows :: "pyval list \<Rightarrow> account_row list \<Rightarrow> error + pyval list" where
  "append_rows accounts [] = Inr accounts"
| "append_rows accounts (row # rows) =
     (case removeprefix (fullname row) ''Root Account:'' of
        Inl e \<Rightarrow> Inl e
      | Inr fullname' \<Rightarrow>
          (case list_append accounts
                  [child_code row, fullname', name row, parent_name row, parent_code row,
                   row_account_type row, description row, hidden row, placeholder row] of
             Inl e \<Rightarrow> Inl e
           | Inr accounts' \<Rightarrow> append_rows accounts' rows))"

text \<open>
  The database is outside the repository: \<open>execute\<close> maps the URL of a database to
  the outcome of running the query on it, the rows or the error raised.
\<close>

definition export_gnucash_accounts ::
  "(string \<Rightarrow> error + account_row list) \<Rightarrow> string \<Rightarrow> error + pyval list" where
  "export_gnucash_accounts execute db_url =
     (case execute db_url of
        Inl e \<Rightarrow> Inl e
      | Inr result \<Rightarrow>
          (case list_append []
                  [PStr ''account_code'', PStr ''fullname'', PStr ''name'',
                   PStr ''parent_name'', PStr ''parent_code'', PStr ''account_type'',
                   PStr ''description'', PStr ''hidden'', PStr ''placeholder''] of
             Inl e \<Rightarrow> Inl e
           | Inr accounts \<Rightarrow> append_rows accounts result))"

text \<open>\<open>account[1]\<close> on an element of the exported list.\<close>

definition pyval_index :: "pyval \<Rightarrow> int \<Rightarrow> error + pyval" where
  "pyval_index v i =
     (case v of
        PStr s \<Rightarrow>
          (case list_index s i of
             Inl e \<Rightarrow> Inl (IndexError ''string index out of range'')
           | Inr c \<Rightarrow> Inr (PStr [c]))
      | _ \<Rightarrow> Inl TypeError)"

fun second_columns :: "pyval list \<Rightarrow> error + pyval list" where
  "second_columns [] = Inr []"
| "second_columns (account # accounts) =
     (case pyval_index account 1 of
        Inl e \<Rightarrow> Inl e
      | Inr v \<Rightarrow>
          (case second_columns accounts of
             Inl e \<Rightarrow> Inl e
           | Inr vs \<Rightarrow> Inr (v # vs)))"

definition get_gnucash_accounts ::
  "(string \<Rightarrow> error + account_row list) \<Rightarrow> string \<Rightarrow> error + pyval list" where
  "get_gnucash_accounts execute db_path =
     (case export_gnucash_accounts execute (''sqlite:///'' @ db_path) of
        Inl e \<Rightarrow> Inl e
      | Inr accounts \<Rightarrow> second_columns (drop 1 accounts))"

section \<open>Predicates of the statements\<close>

text \<open>No two rules of one category of a lookup have the same pattern.\<close>

definition unique_patterns :: "lookup \<Rightarrow> bool" where
  "unique_patterns lkp \<longleftrightarrow>
     (\<forall>(category, entries) \<in> set lkp. distinct (map payee entries))"

text \<open>\<open>write\<close> after a parse by a fresh \<open>QIFParser\<close>, as the repository's test does it.\<close>

definition parse_then_write :: "string \<Rightarrow> error + string" where
  "parse_then_write qif_file = map_sum id write (init_from_qif QIFParser_init qif_file)"

text \<open>
  The documents that \<open>write\<close> produces from a parsed file.  A value has no white
  space at its ends and no line break.  A header field has a tag of one character
  that is not white space, and its line is neither \<open>!Account\<close> nor the start of a
  \<open>!Type\<close> line.  The header is the \<open>!Account\<close> line, header fields with
  tags that differ, and the terminator.  The label of the \<open>!Type\<close> line has no
  colon, no line break and no white space at its end.  A transaction is in
  canonical order when \<open>sort_transaction\<close> leaves it as it is; it ends with the
  terminator.
\<close>

definition clean_value :: "string \<Rightarrow> bool" where
  "clean_value v \<longleftrightarrow> strip v = v \<and> LF \<notin> set v \<and> CR \<notin> set v"

definition header_field :: "string \<times> string \<Rightarrow> bool" where
  "header_field kv \<longleftrightarrow>
     (case fst kv of [c] \<Rightarrow> \<not> isspace c | _ \<Rightarrow> False)
     \<and> clean_value (snd kv)
     \<and> fst kv @ snd kv \<noteq> AcctHeader
     \<and> \<not> startswith (fst kv @ snd kv) TxnHeader"

definition canonical_header :: "record_dict \<Rightarrow> bool" where
  "canonical_header h \<longleftrightarrow>
     (case h of
        [] \<Rightarrow> False
      | first # others \<Rightarrow>
          first = (AcctHeader, '''') \<and> others \<noteq> [] \<and> last others = (RecordEnd, '''')
          \<and> list_all header_field (butlast others))
     \<and> distinct (map fst h)"

definition type_label :: "string \<Rightarrow> bool" where
  "type_label t \<longleftrightarrow>
     CHR '':'' \<notin> set t \<and> LF \<notin> set t \<and> CR \<notin> set t \<and> (t = [] \<or> \<not> isspace (last t))"

definition canonical_transaction :: "record_dict \<Rightarrow> bool" where
  "canonical_transaction txn \<longleftrightarrow>
     sort_transaction txn = txn
     \<and> dict_get txn RecordEnd = Some ''''
     \<and> list_all (\<lambda>kv. clean_value (snd kv)) txn"

definition canonical_document :: "QIFParser \<Rightarrow> bool" where
  "canonical_document slf \<longleftrightarrow>
     canonical_header (account_info slf)
     \<and> (case transaction_type slf of None \<Rightarrow> False | Some t \<Rightarrow> type_label t)
     \<and> list_all canonical_transaction (transactions slf)"

section \<open>Strings and dictionaries\<close>

lemmas tag_defs = RecordBegin_def TxnDate_def TxnCheckNumber_def TxnPayee_def
  TxnAmount_def TxnCategory_def RecordEnd_def



lemma dict_get_dict_set:
  "dict_get (dict_set d k v) k' = (if k' = k then Some v else dict_get d k')"
  by (induction d k v rule: dict_set.induct) (auto simp: dict_get_def)

lemma dict_set_same: "dict_set (dict_set d k v) k w = dict_set d k w"
  by (induction d k v rule: dict_set.induct) auto

lemma set_dict_set: "set (dict_set d k v) \<subseteq> insert (k, v) (set d)"
  by (induction d k v rule: dict_set.induct) auto

lemma dict_get_None: "dict_get d k = None \<longleftrightarrow> k \<notin> fst ` set d"
  by (simp add: dict_get_def map_of_eq_None_iff)

lemma dict_get_mem: "dict_get d k = Some v \<Longrightarrow> (k, v) \<in> set d"
  by (simp add: dict_get_def map_of_SomeD)

lemma dict_set_fresh: "k \<notin> fst ` set d \<Longrightarrow> dict_set d k v = d @ [(k, v)]"
  by (induction d k v rule: dict_set.induct) auto

lemma foldl_dict_set_distinct:
  "distinct (map fst (d @ ps)) \<Longrightarrow> foldl (\<lambda>d (k, v). dict_set d k v) d ps = d @ ps"
proof (induction ps arbitrary: d)
  case Nil
  then show ?case by simp
next
  case (Cons kv ps)
  obtain k v where kv: "kv = (k, v)" by (cases kv)
  from Cons.prems have fresh: "k \<notin> fst ` set d" by (auto simp: kv)
  from Cons.prems have "distinct (map fst ((d @ [(k, v)]) @ ps))" by (simp add: kv)
  from Cons.IH[OF this] show ?case by (simp add: kv dict_set_fresh[OF fresh])
qed

lemma OrderedDict_distinct: "distinct (map fst ps) \<Longrightarrow> OrderedDict ps = ps"
  using foldl_dict_set_distinct[of "[]" ps] by (simp add: OrderedDict_def)

section \<open>The canonical field order\<close>

lemma map_fst_map_filter:
  "map fst (List.map_filter (\<lambda>f. case g f of None \<Rightarrow> None | Some v \<Rightarrow> Some (f, v)) xs)
     = filter (\<lambda>f. g f \<noteq> None) xs"
  by (induction xs) (auto simp: List.map_filter_simps split: option.splits)

lemma map_of_map_filter:
  "map_of (List.map_filter (\<lambda>f. case g f of None \<Rightarrow> None | Some v \<Rightarrow> Some (f, v)) xs)
     = g |` set xs"
  by (induction xs)
     (auto simp: List.map_filter_simps restrict_map_def fun_eq_iff split: option.splits)

lemma distinct_field_order: "distinct field_order"
  by (simp add: field_order_def tag_defs)

lemma sort_transaction_eq:
  "sort_transaction txn = List.map_filter
       (\<lambda>field. case dict_get txn field of None \<Rightarrow> None | Some v \<Rightarrow> Some (field, v))
       field_order"
  unfolding sort_transaction_def
  by (rule OrderedDict_distinct) (simp add: map_fst_map_filter distinct_field_order)

text \<open>
  Claim C2.  Whatever the order in which the fields of a transaction were set,
  \<open>sort_transaction\<close> (whose pairs \<open>write\<close> prints one per line) yields the tags
  of the canonical order C, D, N, P, T, L, ^ that the record has, in that order, each
  with the record's value; two records holding the same fields are serialized alike.
\<close>

theorem sort_transaction_canonical:
  "map fst (sort_transaction txn) = filter (\<lambda>field. field \<in> fst ` set txn) field_order
   \<and> dict_get (sort_transaction txn) = dict_get txn |` set field_order
   \<and> (dict_get txn' = dict_get txn \<longrightarrow> sort_transaction txn' = sort_transaction txn)"
proof -
  have "dict_get (sort_transaction txn) = dict_get txn |` set field_order"
    unfolding sort_transaction_eq
    by (rule ext) (simp add: dict_get_def[abs_def] map_of_map_filter)
  then show ?thesis
    by (simp add: sort_transaction_eq map_fst_map_filter dict_get_None)
qed

theorem sort_transaction_canonical_witness:
  "dict_get [(''L'', ''Expenses:Misc''), (''T'', ''-100.00''), (''P'', ''Test Payee''),
             (''D'', ''12/31/21'')]
     = dict_get [(''D'', ''12/31/21''), (''P'', ''Test Payee''), (''T'', ''-100.00''),
                 (''L'', ''Expenses:Misc'')]
   \<and> sort_transaction [(''L'', ''Expenses:Misc''), (''T'', ''-100.00''),
                        (''P'', ''Test Payee''), (''D'', ''12/31/21'')]
     = [(''D'', ''12/31/21''), (''P'', ''Test Payee''), (''T'', ''-100.00''),
        (''L'', ''Expenses:Misc'')]"
proof -
  let ?a = "[(''L'', ''Expenses:Misc''), (''T'', ''-100.00''), (''P'', ''Test Payee''),
             (''D'', ''12/31/21'')]"
  let ?b = "[(''D'', ''12/31/21''), (''P'', ''Test Payee''), (''T'', ''-100.00''),
             (''L'', ''Expenses:Misc'')]"
  have h: "dict_get ?a = dict_get ?b"
    by (rule ext) (simp add: dict_get_def)
  have e: "sort_transaction ?b = ?b"
    by (simp add: sort_transaction_eq field_order_def tag_defs List.map_filter_simps
          dict_get_def)
  from sort_transaction_canonical[of ?b ?a] h e show ?thesis by simp
qed

section \<open>The CSV adapter\<close>

lemma csv_txn_shape:
  assumes "csv_txn cfg t = Inr txn"
  shows "\<exists>d p a. txn = [(RecordBegin, ''''), (TxnDate, d), (TxnCheckNumber, ''N/A''),
            (TxnPayee, p), (TxnAmount, a), (TxnCategory, ''''), (RecordEnd, '''')]"
  using assms unfolding csv_txn_def Let_def
  by (auto split: sum.splits simp: tag_defs)

lemma csv_rows_new:
  "csv_rows cfg slf ts = Inr slf' \<Longrightarrow>
     \<exists>new. transactions slf' = transactions slf @ new
        \<and> list_all2 (\<lambda>t txn. csv_txn cfg t = Inr txn) ts new"
proof (induction ts arbitrary: slf)
  case Nil
  then show ?case by simp
next
  case (Cons t ts)
  from Cons.prems obtain txn where txn: "csv_txn cfg t = Inr txn"
    and rest: "csv_rows cfg (slf\<lparr>transactions := transactions slf @ [txn]\<rparr>) ts = Inr slf'"
    by (auto split: sum.splits)
  from Cons.IH[OF rest] obtain new where
    "transactions slf' = (transactions slf @ [txn]) @ new"
    "list_all2 (\<lambda>t txn. csv_txn cfg t = Inr txn) ts new" by auto
  then have "transactions slf' = transactions slf @ (txn # new)
     \<and> list_all2 (\<lambda>t txn. csv_txn cfg t = Inr txn) (t # ts) (txn # new)"
    using txn by simp
  then show ?case by blast
qed

lemma init_from_csv_new:
  assumes "init_from_csv slf csv_input cfg = Inr slf'"
  shows "\<exists>new. transactions slf' = transactions slf @ new
        \<and> list_all2 (\<lambda>t txn. csv_txn cfg t = Inr txn) csv_input new"
proof -
  from assms obtain slf0 where "csv_rows cfg slf0 csv_input = Inr slf'"
     and "transactions slf0 = transactions slf"
    unfolding init_from_csv_def Let_def by (auto split: sum.splits)
  then show ?thesis using csv_rows_new[of cfg slf0 csv_input slf'] by simp
qed

lemma sort_csv_txn:
  "sort_transaction [(RecordBegin, ''''), (TxnDate, d), (TxnCheckNumber, ''N/A''),
            (TxnPayee, p), (TxnAmount, a), (TxnCategory, ''''), (RecordEnd, '''')]
   = [(RecordBegin, ''''), (TxnDate, d), (TxnCheckNumber, ''N/A''),
            (TxnPayee, p), (TxnAmount, a), (TxnCategory, ''''), (RecordEnd, '''')]"
  by (simp add: sort_transaction_eq field_order_def tag_defs
        List.map_filter_simps dict_get_def)

text \<open>
  Claim C3, as the code has it.  The claim says that the adapter leaves the category
  unset and that writing omits the category line.  \<open>init_from_csv\<close> sets the
  category of every transaction it builds to the empty string, and \<open>write\<close> prints
  it as the line \<open>L\<close> with an empty value: the output of one adapted row holds that
  line.
\<close>

theorem init_from_csv_writes_empty_category:
  "map_sum id write
       (init_from_csv QIFParser_init [[''01/01/2023'', ''Sample Payee 1'', ''100.00'']]
          \<lparr>full_account_name = Some ''Assets:Checking'', account_type = Some ''Bank'',
           colspec = Some [(''date'', 0), (''name'', 1), (''amount'', 2)]\<rparr>)
     = Inr ''!Account\<newline>NAssets:Checking\<newline>TBank\<newline>^\<newline>!Type:Bank\<newline>C\<newline>D01/01/2023\<newline>NN/A\<newline>PSample Payee 1\<newline>T100.00\<newline>L\<newline>^\<newline>''"
  by code_simp

text \<open>
  Claim C3, amended.  Every transaction that \<open>init_from_csv\<close> appends has its
  category set to the empty string, and its serialization holds the category line
  \<open>L\<close> with an empty value.
\<close>

theorem init_from_csv_category:
  assumes "init_from_csv slf csv_input cfg = Inr slf'"
    and "txn \<in> set (drop (length (transactions slf)) (transactions slf'))"
  shows "dict_get txn TxnCategory = Some ''''
     \<and> (TxnCategory, '''') \<in> set (sort_transaction txn)
     \<and> ''L'' @ [LF] \<in> set (map write_line (sort_transaction txn))"
proof -
  from init_from_csv_new[OF assms(1)] obtain new where
    new: "transactions slf' = transactions slf @ new"
    and all: "list_all2 (\<lambda>t txn. csv_txn cfg t = Inr txn) csv_input new" by blast
  from assms(2) new have "txn \<in> set new" by simp
  with all obtain t where "csv_txn cfg t = Inr txn"
    by (auto simp: list_all2_conv_all_nth in_set_conv_nth)
  from csv_txn_shape[OF this] obtain d p a where
    txn: "txn = [(RecordBegin, ''''), (TxnDate, d), (TxnCheckNumber, ''N/A''),
            (TxnPayee, p), (TxnAmount, a), (TxnCategory, ''''), (RecordEnd, '''')]" by blast
  have 1: "dict_get txn TxnCategory = Some ''''"
    by (simp add: txn dict_get_def tag_defs)
  have 2: "(TxnCategory, '''') \<in> set (sort_transaction txn)"
    unfolding txn sort_csv_txn by simp
  have "write_line (TxnCategory, '''') = ''L'' @ [LF]"
    by (simp add: write_line_def TxnCategory_def)
  with 2 have 3: "''L'' @ [LF] \<in> set (map write_line (sort_transaction txn))"
    by (metis image_eqI set_map)
  from 1 2 3 show ?thesis by blast
qed

theorem init_from_csv_category_witness:
  "init_from_csv QIFParser_init [[''01/01/2023'', ''ACME WEB ID: 123'', ''100.00'']]
      \<lparr>full_account_name = Some ''Assets:Checking'', account_type = Some ''Bank'',
       colspec = Some [(''date'', 0), (''name'', 1), (''amount'', 2)]\<rparr>
     = Inr \<lparr>account_info = [(''!Account'', ''''), (''N'', ''Assets:Checking''),
                             (''T'', ''Bank''), (''^'', '''')],
            transactions = [[(''C'', ''''), (''D'', ''01/01/2023''), (''N'', ''N/A''),
                             (''P'', ''ACME WEB ID: 123''), (''T'', ''100.00''),
                             (''L'', ''''), (''^'', '''')]],
            transaction_type = Some ''Bank''\<rparr>
   \<and> dict_get [(''C'', ''''), (''D'', ''01/01/2023''), (''N'', ''N/A''),
                (''P'', ''ACME WEB ID: 123''), (''T'', ''100.00''), (''L'', ''''),
                (''^'', '''')] TxnCategory = Some ''''
   \<and> ''L'' @ [LF] \<in> set (map write_line (sort_transaction
         [(''C'', ''''), (''D'', ''01/01/2023''), (''N'', ''N/A''),
          (''P'', ''ACME WEB ID: 123''), (''T'', ''100.00''), (''L'', ''''),
          (''^'', '''')]))"
proof -
  let ?cfg = "\<lparr>full_account_name = Some ''Assets:Checking'', account_type = Some ''Bank'',
       colspec = Some [(''date'', 0), (''name'', 1), (''amount'', 2)]\<rparr>"
  let ?txn = "[(''C'', ''''), (''D'', ''01/01/2023''), (''N'', ''N/A''),
                (''P'', ''ACME WEB ID: 123''), (''T'', ''100.00''), (''L'', ''''),
                (''^'', '''')]"
  let ?slf' = "\<lparr>account_info = [(''!Account'', ''''), (''N'', ''Assets:Checking''),
                             (''T'', ''Bank''), (''^'', '''')],
            transactions = [?txn], transaction_type = Some ''Bank''\<rparr>"
  have run: "init_from_csv QIFParser_init [[''01/01/2023'', ''ACME WEB ID: 123'', ''100.00'']]
      ?cfg = Inr ?slf'"
    by code_simp
  have mem: "?txn \<in> set (drop (length (transactions QIFParser_init)) (transactions ?slf'))"
    by (simp add: QIFParser_init_def)
  from init_from_csv_category[OF run mem] run show ?thesis by simp
qed

section \<open>The matcher\<close>


text \<open>
  Claim C5.  On a payee that is empty or all whitespace \<open>categorize_transaction\<close>
  returns \<open>None\<close> whatever the lookup holds and whatever the regex search would
  do, so no rule is evaluated: in the witness the lookup has a literal rule that
  matches every payee and the search raises on every call.
\<close>

theorem categorize_blank_payee:
  "strip payee_str = [] \<Longrightarrow> categorize_transaction search payee_str lkp = Inr None"
  by (simp add: categorize_transaction_def)

theorem categorize_blank_payee_witness:
  "strip '' '' = []
   \<and> categorize_transaction (\<lambda>_ _. Inl RegexError) '' ''
        [(''Expenses:Misc'', [\<lparr>payee = '''', type = ''literal''\<rparr>,
                              \<lparr>payee = ''.'', type = ''regex''\<rparr>])]
       = Inr None"
proof -
  have h: "strip '' '' = []" by code_simp
  show ?thesis using h categorize_blank_payee [OF h] by simp
qed

section \<open>The lookup store\<close>

lemma update_lookup_cases:
  "update_lookup cm c p k =
     (case dict_get (lookup_data cm) c of
        None \<Rightarrow> save_lookup_data
                  (cm\<lparr>lookup_data := dict_set (lookup_data cm) c [\<lparr>payee = p, type = k\<rparr>]\<rparr>)
      | Some es \<Rightarrow>
          if p \<in> payee ` set es then cm
          else save_lookup_data
                 (cm\<lparr>lookup_data :=
                       dict_set (lookup_data cm) c (es @ [\<lparr>payee = p, type = k\<rparr>])\<rparr>))"
proof (cases "dict_get (lookup_data cm) c")
  case None
  then have "c \<notin> fst ` set (lookup_data cm)" by (simp add: dict_get_None)
  with None show ?thesis
    unfolding update_lookup_def Let_def
    by (simp add: dict_get_dict_set dict_set_same)
next
  case (Some es)
  then have "c \<in> fst ` set (lookup_data cm)"
    using dict_get_None[of "lookup_data cm" c] by auto
  with Some show ?thesis
    unfolding update_lookup_def Let_def
    by (auto simp: list_ex_iff)
qed

lemma update_lookup_present:
  assumes "dict_get (lookup_data cm) c = Some es" "p \<in> payee ` set es"
  shows "update_lookup cm c p k = cm"
  using assms by (simp add: update_lookup_cases)

lemma update_lookup_exists:
  "\<exists>es. dict_get (lookup_data (update_lookup cm c p k)) c = Some es \<and> p \<in> payee ` set es"
  by (cases "dict_get (lookup_data cm) c")
     (auto simp: update_lookup_cases save_lookup_data_def dict_get_dict_set)

lemma unique_patterns_dict_set:
  assumes "unique_patterns d" "distinct (map payee es)"
  shows "unique_patterns (dict_set d c es)"
  using assms set_dict_set[of d c es] unfolding unique_patterns_def by auto

lemma update_lookup_unique:
  assumes "unique_patterns (lookup_data cm)"
  shows "unique_patterns (lookup_data (update_lookup cm c p k))"
proof (cases "dict_get (lookup_data cm) c")
  case None
  then show ?thesis
    using assms by (simp add: update_lookup_cases save_lookup_data_def unique_patterns_dict_set)
next
  case (Some es)
  then have "(c, es) \<in> set (lookup_data cm)" by (rule dict_get_mem)
  with assms have "distinct (map payee es)" unfolding unique_patterns_def by auto
  then have "p \<notin> payee ` set es \<Longrightarrow> distinct (map payee (es @ [\<lparr>payee = p, type = k\<rparr>]))"
    by auto
  with Some assms show ?thesis
    by (auto simp: update_lookup_cases save_lookup_data_def intro: unique_patterns_dict_set)
qed

text \<open>
  Claim C6.  In every state of the store, a second \<open>update_lookup\<close> with the
  category and pattern of a first one (whatever the kind) changes nothing: the
  manager, its rule lists and the saved file are those the first call left.  And
  \<open>update_lookup\<close> keeps the patterns of each category distinct: a store without
  a repeated pattern stays so.
\<close>

theorem update_lookup_idempotent:
  "update_lookup (update_lookup cm c p k) c p k' = update_lookup cm c p k
   \<and> (unique_patterns (lookup_data cm) \<longrightarrow>
        unique_patterns (lookup_data (update_lookup cm c p k)))"
  using update_lookup_exists[of cm c p k] update_lookup_present update_lookup_unique
  by blast

theorem update_lookup_idempotent_witness:
  "unique_patterns [(''Expenses:Food'', [\<lparr>payee = ''ACME'', type = ''literal''\<rparr>])]
   \<and> update_lookup (update_lookup
        \<lparr>lookup_file = None,
         lookup_data = [(''Expenses:Food'', [\<lparr>payee = ''ACME'', type = ''literal''\<rparr>])],
         categories_list = [''Expenses:Food'']\<rparr> ''Expenses:Food'' ''DELI'' ''literal'')
        ''Expenses:Food'' ''DELI'' ''regex''
     = \<lparr>lookup_file = Some [(''Expenses:Food'', [\<lparr>payee = ''ACME'', type = ''literal''\<rparr>,
                                                  \<lparr>payee = ''DELI'', type = ''literal''\<rparr>])],
        lookup_data = [(''Expenses:Food'', [\<lparr>payee = ''ACME'', type = ''literal''\<rparr>,
                                            \<lparr>payee = ''DELI'', type = ''literal''\<rparr>])],
        categories_list = [''Expenses:Food'']\<rparr>
   \<and> unique_patterns (lookup_data (update_lookup
        \<lparr>lookup_file = None,
         lookup_data = [(''Expenses:Food'', [\<lparr>payee = ''ACME'', type = ''literal''\<rparr>])],
         categories_list = [''Expenses:Food'']\<rparr> ''Expenses:Food'' ''DELI'' ''literal''))"
proof -
  let ?cm = "\<lparr>lookup_file = None,
         lookup_data = [(''Expenses:Food'', [\<lparr>payee = ''ACME'', type = ''literal''\<rparr>])],
         categories_list = [''Expenses:Food'']\<rparr>"
  have u: "unique_patterns (lookup_data ?cm)" by (simp add: unique_patterns_def)
  have e: "update_lookup ?cm ''Expenses:Food'' ''DELI'' ''literal''
     = \<lparr>lookup_file = Some [(''Expenses:Food'', [\<lparr>payee = ''ACME'', type = ''literal''\<rparr>,
                                                  \<lparr>payee = ''DELI'', type = ''literal''\<rparr>])],
        lookup_data = [(''Expenses:Food'', [\<lparr>payee = ''ACME'', type = ''literal''\<rparr>,
                                            \<lparr>payee = ''DELI'', type = ''literal''\<rparr>])],
        categories_list = [''Expenses:Food'']\<rparr>"
    by (simp add: update_lookup_def save_lookup_data_def dict_get_def)
  from update_lookup_idempotent[of ?cm "''Expenses:Food''" "''DELI''" "''literal''" "''regex''"]
    u e
  show ?thesis by simp
qed

section \<open>Asking the operator for a category\<close>

text \<open>
  Claim C7, at an input where the code does otherwise.  The list of valid categories
  does not hold \<open>Unspecified\<close>.  The empty answer is turned into \<open>Unspecified\<close>,
  fails the membership test as any unknown category does, and the loop asks again:
  it returns the next valid answer, and it never returns while the answers stay
  empty.
\<close>

theorem collect_category_empty_response:
  "collect_category
     \<lparr>lookup_file = None, lookup_data = [], categories_list = [''Expenses:Food'']\<rparr>
     ['''', ''Expenses:Food''] = Some ''Expenses:Food''
   \<and> (\<forall>n. collect_category
          \<lparr>lookup_file = None, lookup_data = [], categories_list = [''Expenses:Food'']\<rparr>
          (replicate n '''') = None)"
proof -
  have s: "strip '''' = []" by (simp add: strip_def)
  have s2: "strip ''Expenses:Food'' = ''Expenses:Food''" by code_simp
  have "collect_category
          \<lparr>lookup_file = None, lookup_data = [], categories_list = [''Expenses:Food'']\<rparr>
          (replicate n '''') = None" for n
    by (induction n) (simp_all add: s UNCATEGORIZED_ACCOUNT_def)
  then show ?thesis by (simp add: s s2 UNCATEGORIZED_ACCOUNT_def)
qed

section \<open>The export of the accounts\<close>

text \<open>
  Claim C10, as the code has it.  The claim says that every call raises a
  \<open>TypeError\<close>.  When running the query raises, that error leaves
  \<open>export_gnucash_accounts\<close> and the call of \<open>append\<close> is not reached.
\<close>

theorem export_gnucash_accounts_database_error:
  "export_gnucash_accounts (\<lambda>url. Inl DatabaseError) ''sqlite:///accounting-books.db.gnucash''
     = Inl DatabaseError"
  by (simp add: export_gnucash_accounts_def)

text \<open>
  Claim C10, amended.  No call of \<open>export_gnucash_accounts\<close> returns: when the
  query raises, its error is raised; when the query returns rows, whatever they
  are, the first \<open>append\<close> with nine arguments raises \<open>TypeError\<close>.  So
  \<open>get_gnucash_accounts\<close> never returns a list of categories.
\<close>

theorem export_gnucash_accounts_fails:
  "export_gnucash_accounts execute db_url
     = (case execute db_url of Inl e \<Rightarrow> Inl e | Inr result \<Rightarrow> Inl TypeError)
   \<and> get_gnucash_accounts execute db_path
     = (case execute (''sqlite:///'' @ db_path) of
          Inl e \<Rightarrow> Inl e | Inr result \<Rightarrow> Inl TypeError)"
  by (simp add: export_gnucash_accounts_def get_gnucash_accounts_def list_append_def
           split: sum.splits)

section \<open>The errors of the QIF parser\<close>

lemma parse_line_blank: "strip raw = [] \<Longrightarrow> parse_line st raw = Inr st"
  by (simp add: parse_line_def)

lemma parse_line_errors:
  "parse_line st raw = Inl e \<Longrightarrow> e = NameError \<or> e = IndexError ''list index out of range''"
  unfolding parse_line_def Let_def list_index_def
  by (auto split: if_splits sum.splits option.splits bool.splits list.splits)

lemma parse_lines_errors:
  "parse_lines st raws = Inl e \<Longrightarrow> e = NameError \<or> e = IndexError ''list index out of range''"
proof (induction raws arbitrary: st)
  case Nil
  then show ?case by simp
next
  case (Cons raw raws)
  show ?case
  proof (cases "parse_line st raw")
    case (Inl e')
    with Cons.prems have "e' = e" by simp
    with Inl show ?thesis using parse_line_errors by blast
  next
    case (Inr st')
    with Cons.prems have "parse_lines st' raws = Inl e" by simp
    then show ?thesis by (rule Cons.IH)
  qed
qed

lemma parse_lines_skip_blank:
  "parse_lines st (takeWhile (\<lambda>raw. strip raw = []) raws @ rest) = parse_lines st rest"
  by (induction raws) (auto simp: parse_line_blank)

lemma parse_line_unbound:
  assumes "in_account_section st = None" "strip raw \<noteq> []" "strip raw \<noteq> AcctHeader"
    "\<not> startswith (strip raw) TxnHeader"
  shows "parse_line st raw = Inl NameError"
  using assms unfolding parse_line_def Let_def
  by (auto split: list.splits)

text \<open>
  Claim C8, as the code has it.  The claim says that the parser fails on a line that
  is not empty and cannot be split into a tag and a value.  A line of blanks is such
  a line: nothing is left of it after trimming.  The parser skips it and returns.
\<close>

theorem init_from_qif_skips_blank_line:
  "init_from_qif QIFParser_init ''!Account\<newline>^\<newline>   \<newline>''
     = Inr \<lparr>account_info = [(''!Account'', ''''), (''^'', '''')], transactions = [],
            transaction_type = None\<rparr>"
  by code_simp

text \<open>
  Claim C8, amended.  On the content of a file that was opened and decoded, the loop
  over the lines raises no error of its own for a line that cannot be split: a line
  with nothing left after trimming is skipped and the state stays as it is, and the
  split into the first character and the rest is only made on a line that has a first
  character, so it never fails, on one line or on a whole file.
\<close>

theorem init_from_qif_split_never_fails:
  "(strip raw = [] \<longrightarrow> parse_line st raw = Inr st)
   \<and> parse_line st raw \<noteq> Inl (IndexError ''string index out of range'')
   \<and> init_from_qif slf qif_file \<noteq> Inl (IndexError ''string index out of range'')"
proof -
  have one_line: "parse_line st raw \<noteq> Inl (IndexError ''string index out of range'')"
    using parse_line_errors[of st raw "IndexError ''string index out of range''"] by auto
  have whole_file: "init_from_qif slf qif_file \<noteq> Inl (IndexError ''string index out of range'')"
  proof
    assume "init_from_qif slf qif_file = Inl (IndexError ''string index out of range'')"
    then have "parse_lines \<lparr>self = slf, current_transaction = [], in_account_section = None\<rparr>
                 (file_lines qif_file) = Inl (IndexError ''string index out of range'')"
      by (simp add: init_from_qif_def split: sum.splits)
    from parse_lines_errors[OF this] show False by simp
  qed
  from one_line whole_file parse_line_blank show ?thesis by blast
qed

theorem init_from_qif_split_never_fails_witness:
  "strip ''   \<newline>'' = []
   \<and> parse_line \<lparr>self = QIFParser_init, current_transaction = [],
                  in_account_section = None\<rparr> ''   \<newline>''
       = Inr \<lparr>self = QIFParser_init, current_transaction = [], in_account_section = None\<rparr>
   \<and> init_from_qif QIFParser_init ''   \<newline>''
       \<noteq> Inl (IndexError ''string index out of range'')"
proof -
  have h1: "strip ''   \<newline>'' = []" by code_simp
  from init_from_qif_split_never_fails[of "''   \<newline>''"
      "\<lparr>self = QIFParser_init, current_transaction = [], in_account_section = None\<rparr>"
      QIFParser_init "''   \<newline>''"] h1
  show ?thesis by simp
qed

text \<open>
  Claim C9.  When the first line of the file that is not blank is neither
  \<open>!Account\<close> nor a line starting with \<open>!Type\<close>, \<open>init_from_qif\<close> raises
  \<open>NameError\<close>: \<open>in_account_section\<close> is read before it is assigned.
\<close>

theorem init_from_qif_unbound:
  assumes "dropWhile (\<lambda>raw. strip raw = []) (file_lines qif_file) = raw # rest"
    and "strip raw \<noteq> AcctHeader" and "\<not> startswith (strip raw) TxnHeader"
  shows "init_from_qif slf qif_file = Inl NameError"
proof -
  let ?blank = "\<lambda>raw. strip raw = []"
  let ?st = "\<lparr>self = slf, current_transaction = [], in_account_section = None\<rparr>"
  have nb: "strip raw \<noteq> []"
    using assms(1) hd_dropWhile[of ?blank "file_lines qif_file"] by auto
  have "file_lines qif_file = takeWhile ?blank (file_lines qif_file) @ raw # rest"
    using assms(1) takeWhile_dropWhile_id[of ?blank "file_lines qif_file"] by simp
  then have "parse_lines ?st (file_lines qif_file) = parse_lines ?st (raw # rest)"
    using parse_lines_skip_blank[of ?st "file_lines qif_file" "raw # rest"] by simp
  also have "\<dots> = Inl NameError"
    using parse_line_unbound[of ?st raw, OF _ nb assms(2,3)] by simp
  finally show ?thesis by (simp add: init_from_qif_def)
qed

theorem init_from_qif_unbound_witness:
  "dropWhile (\<lambda>raw. strip raw = []) (file_lines ''\<newline>  \<newline>^\<newline>D01/01/2023\<newline>'')
     = [''^\<newline>'', ''D01/01/2023\<newline>'']
   \<and> strip ''^\<newline>'' \<noteq> AcctHeader
   \<and> \<not> startswith (strip ''^\<newline>'') TxnHeader
   \<and> init_from_qif QIFParser_init ''\<newline>  \<newline>^\<newline>D01/01/2023\<newline>'' = Inl NameError"
proof -
  have h1: "dropWhile (\<lambda>raw. strip raw = [])
              (file_lines ''\<newline>  \<newline>^\<newline>D01/01/2023\<newline>'')
     = [''^\<newline>'', ''D01/01/2023\<newline>'']" by code_simp
  have h2: "strip ''^\<newline>'' \<noteq> AcctHeader" by code_simp
  have h3: "\<not> startswith (strip ''^\<newline>'') TxnHeader" by code_simp
  from init_from_qif_unbound[OF h1 h2 h3, of QIFParser_init] h1 h2 h3
  show ?thesis by simp
qed

section \<open>Writing a document and reading it back\<close>

lemma isspace_LF: "isspace LF" by (simp add: isspace_def LF_def)

lemma isspace_CR: "isspace CR" by (simp add: isspace_def CR_def)

lemma lines_keepends_line:
  "LF \<notin> set l \<Longrightarrow> lines_keepends (l @ LF # rest) = (l @ [LF]) # lines_keepends rest"
  by (induction l) auto

lemma strip_id_iff:
  "strip v = v \<longleftrightarrow> v = [] \<or> (\<not> isspace (hd v) \<and> \<not> isspace (last v))"
proof (cases "v = []")
  case True
  then show ?thesis by (simp add: strip_def)
next
  case False
  show ?thesis
  proof
    assume eq: "strip v = v"
    have "length (strip v) \<le> length (dropWhile isspace v)"
      unfolding strip_def using length_dropWhile_le[of isspace "rev (dropWhile isspace v)"] by simp
    with eq have "length v \<le> length (dropWhile isspace v)" by simp
    then have dv: "dropWhile isspace v = v"
      by (metis dropWhile_eq_drop drop_eq_Nil2 length_drop diff_is_0_eq' False
            length_dropWhile_le le_antisym takeWhile_dropWhile_id append_self_conv2 length_0_conv
            length_append add_diff_cancel_right' diff_self_eq_0 takeWhile_eq_take)
    with eq have "rev (dropWhile isspace (rev v)) = v" by (simp add: strip_def)
    then have "dropWhile isspace (rev v) = rev v" by (metis rev_rev_ident)
    with dv False show "v = [] \<or> (\<not> isspace (hd v) \<and> \<not> isspace (last v))"
      by (simp add: dropWhile_eq_self_iff hd_rev)
  next
    assume "v = [] \<or> (\<not> isspace (hd v) \<and> \<not> isspace (last v))"
    with False have "\<not> isspace (hd v)" "\<not> isspace (last v)" by auto
    with False have "dropWhile isspace v = v" "dropWhile isspace (rev v) = rev v"
      by (simp_all add: dropWhile_eq_self_iff hd_rev)
    then show "strip v = v" by (simp add: strip_def)
  qed
qed

lemma strip_line:
  assumes "\<not> isspace c" "strip v = v"
  shows "strip (c # v @ [LF]) = c # v"
proof -
  have "dropWhile isspace (rev v @ [c]) = rev v @ [c]"
  proof (cases "v = []")
    case True
    with assms show ?thesis by simp
  next
    case False
    with assms(2) have "\<not> isspace (last v)" by (simp add: strip_id_iff)
    with False show ?thesis by (simp add: dropWhile_eq_self_iff hd_rev hd_append)
  qed
  with assms(1) show ?thesis by (simp add: strip_def isspace_LF)
qed

lemma universal_newlines_line:
  "CR \<notin> set l \<Longrightarrow> universal_newlines (l @ LF # rest) = l @ LF # universal_newlines rest"
proof (induction l)
  case Nil
  have "LF \<noteq> CR" by (simp add: LF_def CR_def)
  then show ?case by (cases rest) auto
next
  case (Cons c l)
  then show ?case by (cases l) auto
qed

lemma file_lines_line:
  "LF \<notin> set l \<Longrightarrow> CR \<notin> set l \<Longrightarrow> file_lines (l @ LF # rest) = (l @ [LF]) # file_lines rest"
  by (simp add: file_lines_def universal_newlines_line lines_keepends_line)

lemma file_lines_fields:
  assumes "\<forall>kv \<in> set kvs. LF \<notin> set (fst kv @ snd kv) \<and> CR \<notin> set (fst kv @ snd kv)"
  shows "file_lines (concat (map write_line kvs) @ rest) = map write_line kvs @ file_lines rest"
  using assms
proof (induction kvs)
  case Nil
  then show ?case by simp
next
  case (Cons kv kvs)
  have w: "write_line kv = (fst kv @ snd kv) @ [LF]" by (simp add: write_line_def)
  have "file_lines (concat (map write_line (kv # kvs)) @ rest)
      = file_lines ((fst kv @ snd kv) @ LF # (concat (map write_line kvs) @ rest))"
    by (simp add: w)
  also have "\<dots> = ((fst kv @ snd kv) @ [LF]) # file_lines (concat (map write_line kvs) @ rest)"
    using Cons.prems by (intro file_lines_line) auto
  also have "file_lines (concat (map write_line kvs) @ rest)
       = map write_line kvs @ file_lines rest"
    using Cons.prems by (intro Cons.IH) simp
  finally show ?case by (simp add: w)
qed

lemma file_lines_Nil: "file_lines [] = []"
  by (simp add: file_lines_def)

lemma not_isspace_newline: "\<not> isspace c \<Longrightarrow> c \<noteq> LF \<and> c \<noteq> CR"
  using isspace_LF isspace_CR by auto

lemma parse_line_data:
  assumes "\<not> isspace c" "strip v = v" "c # v \<noteq> AcctHeader" "\<not> startswith (c # v) TxnHeader"
    "[c] \<noteq> RecordEnd"
  shows "parse_line st (write_line ([c], v)) =
     (case in_account_section st of
        None \<Rightarrow> Inl NameError
      | Some True \<Rightarrow>
          Inr (st\<lparr>self := (self st)\<lparr>account_info :=
                  dict_set (account_info (self st)) [c] v\<rparr>\<rparr>)
      | Some False \<Rightarrow>
          Inr (st\<lparr>current_transaction := dict_set (current_transaction st) [c] v\<rparr>))"
proof -
  have s: "strip (write_line ([c], v)) = c # v"
    using strip_line[OF assms(1,2)] by (simp add: write_line_def)
  have ne: "c # v \<noteq> RecordEnd" using assms(5) by (auto simp: RecordEnd_def)
  show ?thesis
    unfolding parse_line_def Let_def s using assms(2,3,4) ne
    by (simp split: option.splits bool.splits)
qed

lemma parse_line_AcctHeader:
  "parse_line st (write_line (AcctHeader, '''')) =
     Inr (st\<lparr>in_account_section := Some True,
             self := (self st)\<lparr>account_info := [(AcctHeader, '''')]\<rparr>\<rparr>)"
proof -
  have "strip (write_line (AcctHeader, '''')) = AcctHeader"
    unfolding write_line_def AcctHeader_def LF_def by code_simp
  then show ?thesis
    unfolding parse_line_def Let_def by (simp add: AcctHeader_def)
qed

lemma parse_line_RecordEnd:
  "parse_line st (write_line (RecordEnd, '''')) =
     (case in_account_section st of
           None \<Rightarrow> Inl NameError
         | Some True \<Rightarrow>
             Inr (st\<lparr>self := (self st)\<lparr>account_info :=
                         dict_set (account_info (self st)) RecordEnd ''''\<rparr>,
                     in_account_section := Some False\<rparr>)
         | Some False \<Rightarrow>
             Inr (st\<lparr>self := (self st)\<lparr>transactions :=
                         transactions (self st)
                           @ [dict_set (current_transaction st) RecordEnd '''']\<rparr>,
                     current_transaction := []\<rparr>))"
proof -
  have "strip (write_line (RecordEnd, '''')) = RecordEnd"
    unfolding write_line_def RecordEnd_def LF_def by code_simp
  then show ?thesis
    unfolding parse_line_def Let_def by (simp add: AcctHeader_def RecordEnd_def TxnHeader_def)
qed

lemma str_split_none: "sep \<notin> set s \<Longrightarrow> str_split sep s = [s]"
  by (induction s) auto

lemma str_split_first:
  "sep \<notin> set a \<Longrightarrow> str_split sep (a @ sep # t) = a # str_split sep t"
  by (induction a) auto

lemma parse_line_type:
  assumes "type_label t"
  shows "parse_line st (''!Type:'' @ t @ [LF]) =
           Inr (st\<lparr>self := (self st)\<lparr>transaction_type := Some t\<rparr>\<rparr>)"
proof -
  have sp: "\<not> isspace (CHR ''!'')" "\<not> isspace (CHR '':'')" by (simp_all add: isspace_def)
  have "strip (''Type:'' @ t) = ''Type:'' @ t"
    using assms sp unfolding strip_id_iff type_label_def by (auto simp: isspace_def)
  from strip_line[OF sp(1) this] have s: "strip (''!Type:'' @ t @ [LF]) = ''!Type:'' @ t"
    by simp
  have "str_split (CHR '':'') (''!Type'' @ CHR '':'' # t) = ''!Type'' # str_split (CHR '':'') t"
    by (rule str_split_first) simp
  then have sl: "str_split (CHR '':'') (''!Type:'' @ t) = [''!Type'', t]"
    using assms by (simp add: str_split_none type_label_def)
  show ?thesis
    unfolding parse_line_def Let_def s sl
    by (simp add: AcctHeader_def TxnHeader_def list_index_def)
qed

lemma header_field_key:
  assumes "header_field kv"
  obtains c where "fst kv = [c]" "\<not> isspace c"
  using assms unfolding header_field_def by (auto split: list.splits)

lemma parse_header_fields:
  assumes "in_account_section st = Some True" "list_all header_field mid"
    "RecordEnd \<notin> fst ` set mid" "distinct (map fst (account_info (self st) @ mid))"
  shows "parse_lines st (map write_line mid @ rest)
       = parse_lines (st\<lparr>self := (self st)\<lparr>account_info := account_info (self st) @ mid\<rparr>\<rparr>) rest"
  using assms
proof (induction mid arbitrary: st)
  case Nil
  then show ?case by simp
next
  case (Cons kv mid)
  from Cons.prems(2) have hf: "header_field kv" by simp
  then obtain c where c: "fst kv = [c]" "\<not> isspace c" by (rule header_field_key)
  obtain v where kv: "kv = ([c], v)" using c(1) by (cases kv) auto
  from hf have v: "strip v = v" "c # v \<noteq> AcctHeader" "\<not> startswith (c # v) TxnHeader"
    by (simp_all add: header_field_def kv clean_value_def)
  from Cons.prems(3) have ne: "[c] \<noteq> RecordEnd" by (auto simp: kv)
  from Cons.prems(4) have fresh: "[c] \<notin> fst ` set (account_info (self st))"
    by (auto simp: kv)
  let ?st' = "st\<lparr>self := (self st)\<lparr>account_info := account_info (self st) @ [kv]\<rparr>\<rparr>"
  have step: "parse_line st (write_line kv) = Inr ?st'"
    using parse_line_data[OF c(2) v ne, of st] Cons.prems(1)
    by (simp add: kv dict_set_fresh[OF fresh])
  have "parse_lines ?st' (map write_line mid @ rest)
       = parse_lines (?st'\<lparr>self := (self ?st')\<lparr>account_info := account_info (self ?st') @ mid\<rparr>\<rparr>) rest"
    using Cons.prems by (intro Cons.IH) auto
  with step show ?case by simp
qed

lemma canonical_header_shape:
  assumes "canonical_header h"
  obtains mid where "h = (AcctHeader, '''') # mid @ [(RecordEnd, '''')]"
    "list_all header_field mid" "distinct (map fst h)"
proof -
  from assms obtain others where h: "h = (AcctHeader, '''') # others" and o: "others \<noteq> []"
    "last others = (RecordEnd, '''')" "list_all header_field (butlast others)"
    and d: "distinct (map fst h)"
    unfolding canonical_header_def by (auto split: list.splits)
  from o(1,2) have "others = butlast others @ [(RecordEnd, '''')]"
    using append_butlast_last_id[of others] by simp
  with h have "h = (AcctHeader, '''') # butlast others @ [(RecordEnd, '''')]" by simp
  from that[OF this o(3) d] show ?thesis .
qed

lemma parse_header:
  assumes "canonical_header h"
  shows "parse_lines st (map write_line h @ rest)
       = parse_lines (st\<lparr>in_account_section := Some False,
                         self := (self st)\<lparr>account_info := h\<rparr>\<rparr>) rest"
proof -
  from assms obtain mid where h: "h = (AcctHeader, '''') # mid @ [(RecordEnd, '''')]"
    and mid: "list_all header_field mid" and d: "distinct (map fst h)"
    by (rule canonical_header_shape)
  let ?st1 = "st\<lparr>in_account_section := Some True,
             self := (self st)\<lparr>account_info := [(AcctHeader, '''')]\<rparr>\<rparr>"
  let ?st2 = "?st1\<lparr>self := (self ?st1)\<lparr>account_info := account_info (self ?st1) @ mid\<rparr>\<rparr>"
  from d have ne: "RecordEnd \<notin> fst ` set mid"
    and d1: "distinct (map fst ((AcctHeader, '''') # mid))"
    and fresh: "RecordEnd \<notin> fst ` set ((AcctHeader, '''') # mid)"
    by (auto simp: h)
  have ds: "dict_set ((AcctHeader, '''') # mid) RecordEnd '''' = h"
    using dict_set_fresh[OF fresh, of "''''"] by (simp only: h append_Cons)
  have "parse_lines st (map write_line h @ rest)
      = parse_lines ?st1 (map write_line mid @ write_line (RecordEnd, '''') # rest)"
    by (simp add: h parse_line_AcctHeader)
  also have "\<dots> = parse_lines ?st2 (write_line (RecordEnd, '''') # rest)"
    using mid ne d1 by (intro parse_header_fields) auto
  also have "\<dots> = parse_lines (?st2\<lparr>self := (self ?st2)\<lparr>account_info := h\<rparr>,
                     in_account_section := Some False\<rparr>) rest"
    by (simp add: parse_line_RecordEnd ds del: dict_set.simps)
  also have "?st2\<lparr>self := (self ?st2)\<lparr>account_info := h\<rparr>,
                     in_account_section := Some False\<rparr>
      = st\<lparr>in_account_section := Some False,
                         self := (self st)\<lparr>account_info := h\<rparr>\<rparr>"
    by (cases st) simp
  finally show ?thesis .
qed

lemma txn_tag:
  assumes "k \<in> set field_order" "k \<noteq> RecordEnd"
  obtains c where "k = [c]" "\<not> isspace c" "c \<noteq> CHR ''!''"
proof -
  have ns: "\<not> isspace (CHR ''C'')" "\<not> isspace (CHR ''D'')" "\<not> isspace (CHR ''N'')"
    "\<not> isspace (CHR ''P'')" "\<not> isspace (CHR ''T'')" "\<not> isspace (CHR ''L'')"
    by (simp_all add: isspace_def)
  from assms have "k = ''C'' \<or> k = ''D'' \<or> k = ''N'' \<or> k = ''P'' \<or> k = ''T'' \<or> k = ''L''"
    by (simp add: field_order_def tag_defs)
  then consider "k = ''C''" | "k = ''D''" | "k = ''N''" | "k = ''P''" | "k = ''T''" | "k = ''L''"
    by blast
  then show ?thesis
  proof cases
    case 1 show ?thesis by (rule that[of "CHR ''C''"]) (simp_all add: 1 ns)
  next
    case 2 show ?thesis by (rule that[of "CHR ''D''"]) (simp_all add: 2 ns)
  next
    case 3 show ?thesis by (rule that[of "CHR ''N''"]) (simp_all add: 3 ns)
  next
    case 4 show ?thesis by (rule that[of "CHR ''P''"]) (simp_all add: 4 ns)
  next
    case 5 show ?thesis by (rule that[of "CHR ''T''"]) (simp_all add: 5 ns)
  next
    case 6 show ?thesis by (rule that[of "CHR ''L''"]) (simp_all add: 6 ns)
  qed
qed

lemma parse_txn_fields:
  assumes "in_account_section st = Some False"
    "fst ` set body \<subseteq> set field_order" "RecordEnd \<notin> fst ` set body"
    "list_all (\<lambda>kv. clean_value (snd kv)) body"
    "distinct (map fst (current_transaction st @ body))"
  shows "parse_lines st (map write_line body @ rest)
       = parse_lines (st\<lparr>current_transaction := current_transaction st @ body\<rparr>) rest"
  using assms
proof (induction body arbitrary: st)
  case Nil
  then show ?case by simp
next
  case (Cons kv body)
  from Cons.prems(2,3) have "fst kv \<in> set field_order" "fst kv \<noteq> RecordEnd" by auto
  then obtain c where c: "fst kv = [c]" "\<not> isspace c" "c \<noteq> CHR ''!''" by (rule txn_tag)
  obtain v where kv: "kv = ([c], v)" using c(1) by (cases kv) auto
  from Cons.prems(4) have v: "strip v = v" by (simp add: kv clean_value_def)
  from c(3) have nh: "c # v \<noteq> AcctHeader" "\<not> startswith (c # v) TxnHeader"
    by (simp_all add: AcctHeader_def TxnHeader_def)
  from Cons.prems(3) have ne: "[c] \<noteq> RecordEnd" by (auto simp: kv)
  from Cons.prems(5) have fresh: "[c] \<notin> fst ` set (current_transaction st)"
    by (auto simp: kv)
  let ?st' = "st\<lparr>current_transaction := current_transaction st @ [kv]\<rparr>"
  have step: "parse_line st (write_line kv) = Inr ?st'"
    using parse_line_data[OF c(2) v nh ne, of st] Cons.prems(1)
    by (simp add: kv dict_set_fresh[OF fresh])
  have "parse_lines ?st' (map write_line body @ rest)
       = parse_lines (?st'\<lparr>current_transaction := current_transaction ?st' @ body\<rparr>) rest"
    using Cons.prems by (intro Cons.IH) auto
  with step show ?case by simp
qed

lemma canonical_transaction_shape:
  assumes "canonical_transaction txn"
  obtains body where "txn = body @ [(RecordEnd, '''')]"
    "fst ` set body \<subseteq> set field_order" "RecordEnd \<notin> fst ` set body"
    "list_all (\<lambda>kv. clean_value (snd kv)) body" "distinct (map fst txn)"
proof -
  from assms have st: "sort_transaction txn = txn" and e: "dict_get txn RecordEnd = Some ''''"
    and cl: "list_all (\<lambda>kv. clean_value (snd kv)) txn"
    by (simp_all add: canonical_transaction_def)
  have keys: "map fst txn = filter (\<lambda>f. dict_get txn f \<noteq> None) field_order"
    using map_fst_map_filter[of "dict_get txn" field_order] st
    by (simp add: sort_transaction_eq)
  then have d: "distinct (map fst txn)" using distinct_field_order by simp
  define present where "present = (\<lambda>f. dict_get txn f \<noteq> None)"
  have fo: "field_order = butlast field_order @ [RecordEnd]"
    by (simp add: field_order_def)
  have pe: "present RecordEnd" using e by (simp add: present_def)
  have "filter present field_order = filter present (butlast field_order @ [RecordEnd])"
    using fo by simp
  also have "\<dots> = filter present (butlast field_order) @ [RecordEnd]"
    using pe by simp
  finally have "map fst txn = filter present (butlast field_order) @ [RecordEnd]"
    using keys by (simp add: present_def)
  then have "\<exists>us vs. txn = us @ vs \<and> filter present (butlast field_order) = map fst us
      \<and> [RecordEnd] = map fst vs"
    by (simp only: map_eq_append_conv)
  then obtain body vs where t: "txn = body @ vs"
    and bk: "filter present (butlast field_order) = map fst body"
    and vk: "[RecordEnd] = map fst vs"
    by (elim exE conjE)
  from vk obtain w where vs: "vs = [(RecordEnd, w)]" by (cases vs) auto
  have "(RecordEnd, w) \<in> set txn" by (simp add: t vs)
  with d have "map_of txn RecordEnd = Some w" by (rule map_of_is_SomeI)
  with e have "w = ''''" by (simp add: dict_get_def)
  with t vs have t': "txn = body @ [(RecordEnd, '''')]" by simp
  have "set (map fst body) \<subseteq> set (butlast field_order)"
    unfolding bk[symmetric] by (rule filter_is_subset)
  also have "\<dots> \<subseteq> set field_order" by (auto dest: in_set_butlastD)
  finally have 1: "fst ` set body \<subseteq> set field_order" by simp
  have "distinct (map fst (body @ [(RecordEnd, '''')]))" using d t' by simp
  then have 2: "RecordEnd \<notin> fst ` set body" by simp
  have "list_all (\<lambda>kv. clean_value (snd kv)) (body @ [(RecordEnd, '''')])" using cl t' by simp
  then have 3: "list_all (\<lambda>kv. clean_value (snd kv)) body" by simp
  from that[OF t' 1 2 3 d] show ?thesis .
qed

lemma parse_txn:
  assumes "canonical_transaction txn" "in_account_section st = Some False"
    "current_transaction st = []"
  shows "parse_lines st (map write_line txn @ rest)
       = parse_lines (st\<lparr>self := (self st)\<lparr>transactions := transactions (self st) @ [txn]\<rparr>\<rparr>) rest"
proof -
  from assms(1) obtain body where t: "txn = body @ [(RecordEnd, '''')]"
    and b: "fst ` set body \<subseteq> set field_order" "RecordEnd \<notin> fst ` set body"
    "list_all (\<lambda>kv. clean_value (snd kv)) body" and d: "distinct (map fst txn)"
    by (rule canonical_transaction_shape)
  let ?st1 = "st\<lparr>current_transaction := current_transaction st @ body\<rparr>"
  from d have db: "distinct (map fst (current_transaction st @ body))"
    by (simp add: t assms(3))
  have ds: "dict_set body RecordEnd '''' = txn"
    using dict_set_fresh[OF b(2), of "''''"] by (simp only: t)
  have "parse_lines st (map write_line txn @ rest)
      = parse_lines st (map write_line body @ write_line (RecordEnd, '''') # rest)"
    by (simp add: t)
  also have "\<dots> = parse_lines ?st1 (write_line (RecordEnd, '''') # rest)"
    using assms(2) b db by (rule parse_txn_fields)
  also have "\<dots> = parse_lines (?st1\<lparr>self := (self ?st1)\<lparr>transactions :=
                         transactions (self ?st1) @ [txn]\<rparr>,
                     current_transaction := []\<rparr>) rest"
    using assms(2) by (simp add: parse_line_RecordEnd ds assms(3) del: dict_set.simps)
  also have "?st1\<lparr>self := (self ?st1)\<lparr>transactions :=
                         transactions (self ?st1) @ [txn]\<rparr>,
                     current_transaction := []\<rparr>
       = st\<lparr>self := (self st)\<lparr>transactions := transactions (self st) @ [txn]\<rparr>\<rparr>"
    using assms(3) by (cases st) simp
  finally show ?thesis .
qed

lemma parse_txns:
  assumes "list_all canonical_transaction txns" "in_account_section st = Some False"
    "current_transaction st = []"
  shows "parse_lines st (concat (map (map write_line) txns))
       = Inr (st\<lparr>self := (self st)\<lparr>transactions := transactions (self st) @ txns\<rparr>\<rparr>)"
  using assms
proof (induction txns arbitrary: st)
  case Nil
  then show ?case by simp
next
  case (Cons txn txns)
  let ?st' = "st\<lparr>self := (self st)\<lparr>transactions := transactions (self st) @ [txn]\<rparr>\<rparr>"
  have "parse_lines st (concat (map (map write_line) (txn # txns)))
      = parse_lines ?st' (concat (map (map write_line) txns))"
    using parse_txn[of txn st] Cons.prems by simp
  also have "\<dots> = Inr (?st'\<lparr>self := (self ?st')\<lparr>transactions := transactions (self ?st') @ txns\<rparr>\<rparr>)"
    using Cons.prems by (intro Cons.IH) auto
  finally show ?case by simp
qed

lemma tag_no_newline: "k \<in> set field_order \<Longrightarrow> LF \<notin> set k \<and> CR \<notin> set k"
  by (auto simp: field_order_def tag_defs LF_def CR_def)

lemma canonical_header_lines:
  assumes "canonical_header h" "kv \<in> set h"
  shows "LF \<notin> set (fst kv @ snd kv) \<and> CR \<notin> set (fst kv @ snd kv)"
proof -
  from assms(1) obtain mid where h: "h = (AcctHeader, '''') # mid @ [(RecordEnd, '''')]"
    and mid: "list_all header_field mid"
    by (rule canonical_header_shape)
  from assms(2) h consider "kv = (AcctHeader, '''')" | "kv = (RecordEnd, '''')" | "kv \<in> set mid"
    by auto
  then show ?thesis
  proof cases
    case 1
    then show ?thesis by (simp add: AcctHeader_def LF_def CR_def)
  next
    case 2
    then show ?thesis by (simp add: RecordEnd_def LF_def CR_def)
  next
    case 3
    with mid have hf: "header_field kv" by (simp add: list_all_iff)
    then obtain c where c: "fst kv = [c]" "\<not> isspace c" by (rule header_field_key)
    from hf have "clean_value (snd kv)" by (simp add: header_field_def)
    with c not_isspace_newline[OF c(2)] show ?thesis by (auto simp: clean_value_def)
  qed
qed

lemma canonical_transaction_lines:
  assumes "canonical_transaction txn" "kv \<in> set txn"
  shows "LF \<notin> set (fst kv @ snd kv) \<and> CR \<notin> set (fst kv @ snd kv)"
proof -
  from assms(1) obtain body where t: "txn = body @ [(RecordEnd, '''')]"
    and b: "fst ` set body \<subseteq> set field_order"
    by (rule canonical_transaction_shape)
  have "RecordEnd \<in> set field_order" by (simp add: field_order_def)
  with b t assms(2) have "fst kv \<in> set field_order" by auto
  then have k: "LF \<notin> set (fst kv) \<and> CR \<notin> set (fst kv)" by (rule tag_no_newline)
  from assms have "clean_value (snd kv)"
    by (simp add: canonical_transaction_def list_all_iff)
  with k show ?thesis by (simp add: clean_value_def)
qed

lemma file_lines_transactions:
  assumes "list_all canonical_transaction txns"
  shows "file_lines (concat (map (\<lambda>transaction. concat (map write_line (sort_transaction transaction))) txns))
       = concat (map (map write_line) txns)"
  using assms
proof (induction txns)
  case Nil
  then show ?case by (simp add: file_lines_Nil)
next
  case (Cons txn txns)
  from Cons.prems have ct: "canonical_transaction txn" by simp
  then have st: "sort_transaction txn = txn" by (simp add: canonical_transaction_def)
  have "file_lines (concat (map write_line txn)
          @ concat (map (\<lambda>transaction. concat (map write_line (sort_transaction transaction))) txns))
      = map write_line txn
          @ file_lines (concat (map (\<lambda>transaction. concat (map write_line (sort_transaction transaction))) txns))"
    using canonical_transaction_lines[OF ct] by (intro file_lines_fields) blast
  with Cons show ?case by (simp add: st)
qed

lemma file_lines_write:
  assumes "canonical_document slf" "transaction_type slf = Some t"
  shows "file_lines (write slf)
       = map write_line (account_info slf)
         @ (''!Type:'' @ t @ [LF]) # concat (map (map write_line) (transactions slf))"
proof -
  from assms have ch: "canonical_header (account_info slf)" and tl: "type_label t"
    and ct: "list_all canonical_transaction (transactions slf)"
    by (simp_all add: canonical_document_def)
  let ?body = "concat (map (\<lambda>transaction. concat (map write_line (sort_transaction transaction)))
                 (transactions slf))"
  have w: "write slf = concat (map write_line (account_info slf))
             @ ((''!Type:'' @ t) @ LF # ?body)"
    by (simp add: write_def assms(2) format_value_def)
  have "LF \<notin> set (''!Type:'' @ t)" "CR \<notin> set (''!Type:'' @ t)"
    using tl by (simp_all add: type_label_def LF_def CR_def)
  then have "file_lines ((''!Type:'' @ t) @ LF # ?body)
      = ((''!Type:'' @ t) @ [LF]) # file_lines ?body"
    by (rule file_lines_line)
  moreover have "file_lines (concat (map write_line (account_info slf))
             @ ((''!Type:'' @ t) @ LF # ?body))
      = map write_line (account_info slf) @ file_lines ((''!Type:'' @ t) @ LF # ?body)"
    using canonical_header_lines[OF ch] by (intro file_lines_fields) blast
  ultimately show ?thesis
    using file_lines_transactions[OF ct] by (simp add: w)
qed

text \<open>
  Claim C1, as the code has it.  The claim says that every document whose
  transactions are in canonical order comes back byte for byte.  Four such documents
  do not: a blank line is dropped; blanks between a tag and its value are dropped;
  a \<open>!Type\<close> line standing before the header is written after it; and line ends
  CR LF are written as LF.
\<close>

theorem parse_then_write_changes_document:
  "parse_then_write ''!Account\<newline>NAssets:Checking\<newline>TBank\<newline>^\<newline>!Type:Bank\<newline>\<newline>C\<newline>D10/11/2023\<newline>T-1.00\<newline>^\<newline>''
     = Inr ''!Account\<newline>NAssets:Checking\<newline>TBank\<newline>^\<newline>!Type:Bank\<newline>C\<newline>D10/11/2023\<newline>T-1.00\<newline>^\<newline>''
   \<and> parse_then_write ''!Account\<newline>NAssets:Checking\<newline>TBank\<newline>^\<newline>!Type:Bank\<newline>C\<newline>D10/11/2023\<newline>P ACME\<newline>^\<newline>''
     = Inr ''!Account\<newline>NAssets:Checking\<newline>TBank\<newline>^\<newline>!Type:Bank\<newline>C\<newline>D10/11/2023\<newline>PACME\<newline>^\<newline>''
   \<and> parse_then_write ''!Type:Bank\<newline>!Account\<newline>NAssets:Checking\<newline>TBank\<newline>^\<newline>C\<newline>D10/11/2023\<newline>^\<newline>''
     = Inr ''!Account\<newline>NAssets:Checking\<newline>TBank\<newline>^\<newline>!Type:Bank\<newline>C\<newline>D10/11/2023\<newline>^\<newline>''
   \<and> parse_then_write (''!Account'' @ [CR, LF] @ ''^'' @ [CR, LF] @ ''!Type:Bank'' @ [CR, LF])
     = Inr ''!Account\<newline>^\<newline>!Type:Bank\<newline>''"
  unfolding parse_then_write_def by code_simp

text \<open>
  Claim C1, amended.  For every document that \<open>write\<close> produces from a canonical
  parser state (the \<open>!Account\<close> line, header fields with tags that differ, the
  terminator, one \<open>!Type\<close> line, then transactions in canonical order, each ended
  by the terminator; every line ended by LF, no blank line, no white space around a
  value), a fresh parser reads the state back, and writing it gives the document
  again, byte for byte.
\<close>

theorem write_then_parse:
  assumes "canonical_document slf"
  shows "init_from_qif QIFParser_init (write slf) = Inr slf
     \<and> parse_then_write (write slf) = Inr (write slf)"
proof -
  from assms obtain t where t: "transaction_type slf = Some t" and tl: "type_label t"
    by (auto simp: canonical_document_def split: option.splits)
  from assms have ch: "canonical_header (account_info slf)"
    and ct: "list_all canonical_transaction (transactions slf)"
    by (simp_all add: canonical_document_def)
  let ?st0 = "\<lparr>self = QIFParser_init, current_transaction = [], in_account_section = None\<rparr>"
  let ?st1 = "?st0\<lparr>in_account_section := Some False,
                   self := (self ?st0)\<lparr>account_info := account_info slf\<rparr>\<rparr>"
  let ?st2 = "?st1\<lparr>self := (self ?st1)\<lparr>transaction_type := Some t\<rparr>\<rparr>"
  let ?txns = "concat (map (map write_line) (transactions slf))"
  have "parse_lines ?st0 (file_lines (write slf))
      = parse_lines ?st0 (map write_line (account_info slf) @ (''!Type:'' @ t @ [LF]) # ?txns)"
    by (simp only: file_lines_write[OF assms t])
  also have "\<dots> = parse_lines ?st1 ((''!Type:'' @ t @ [LF]) # ?txns)"
    by (rule parse_header[OF ch])
  also have "\<dots> = parse_lines ?st2 ?txns"
    by (subst parse_lines.simps(2)) (simp only: parse_line_type[OF tl] sum.case)
  also have "\<dots> = Inr (?st2\<lparr>self := (self ?st2)\<lparr>transactions :=
                        transactions (self ?st2) @ transactions slf\<rparr>\<rparr>)"
    by (rule parse_txns[OF ct]) simp_all
  finally have "init_from_qif QIFParser_init (write slf)
      = Inr (self (?st2\<lparr>self := (self ?st2)\<lparr>transactions :=
                        transactions (self ?st2) @ transactions slf\<rparr>\<rparr>))"
    by (simp add: init_from_qif_def)
  also have "self (?st2\<lparr>self := (self ?st2)\<lparr>transactions :=
                        transactions (self ?st2) @ transactions slf\<rparr>\<rparr>) = slf"
    using t by (cases slf) (simp add: QIFParser_init_def)
  finally have 1: "init_from_qif QIFParser_init (write slf) = Inr slf" .
  then show ?thesis by (simp add: parse_then_write_def)
qed

theorem write_then_parse_witness:
  "canonical_document
     \<lparr>account_info = [(''!Account'', ''''), (''N'', ''Assets:Checking''),
                      (''T'', ''Bank''), (''^'', '''')],
      transactions = [[(''C'', ''''), (''D'', ''10/11/2023''), (''N'', ''N/A''),
                       (''P'', ''PCS SVC    WEB ID: 0000''), (''T'', ''-123.45''),
                       (''L'', ''Expenses:Utilities:Mobile Phone''), (''^'', '''')]],
      transaction_type = Some ''Bank''\<rparr>
   \<and> parse_then_write ''!Account\<newline>NAssets:Checking\<newline>TBank\<newline>^\<newline>!Type:Bank\<newline>C\<newline>D10/11/2023\<newline>NN/A\<newline>PPCS SVC    WEB ID: 0000\<newline>T-123.45\<newline>LExpenses:Utilities:Mobile Phone\<newline>^\<newline>''
     = Inr ''!Account\<newline>NAssets:Checking\<newline>TBank\<newline>^\<newline>!Type:Bank\<newline>C\<newline>D10/11/2023\<newline>NN/A\<newline>PPCS SVC    WEB ID: 0000\<newline>T-123.45\<newline>LExpenses:Utilities:Mobile Phone\<newline>^\<newline>''"
proof -
  let ?slf = "\<lparr>account_info = [(''!Account'', ''''), (''N'', ''Assets:Checking''),
                      (''T'', ''Bank''), (''^'', '''')],
      transactions = [[(''C'', ''''), (''D'', ''10/11/2023''), (''N'', ''N/A''),
                       (''P'', ''PCS SVC    WEB ID: 0000''), (''T'', ''-123.45''),
                       (''L'', ''Expenses:Utilities:Mobile Phone''), (''^'', '''')]],
      transaction_type = Some ''Bank''\<rparr>"
  have c: "canonical_document ?slf" by code_simp
  have w: "write ?slf = ''!Account\<newline>NAssets:Checking\<newline>TBank\<newline>^\<newline>!Type:Bank\<newline>C\<newline>D10/11/2023\<newline>NN/A\<newline>PPCS SVC    WEB ID: 0000\<newline>T-123.45\<newline>LExpenses:Utilities:Mobile Phone\<newline>^\<newline>''"
    by code_simp
  from write_then_parse[OF c] c show ?thesis by (simp only: w simp_thms)
qed

end
